theory Spec2Isabelle
  imports Complex_Main
begin

section \<open>Gravity corrections: the numeric model\<close>

text \<open>
  The functions of \<^verbatim>\<open>gravity_corrections.py\<close> work on one-dimensional numpy arrays.
  An array is modelled as a list, a number as an exact \<^typ>\<open>real\<close>; elementwise numpy
  operations become \<^const>\<open>map\<close>. The Python exceptions the functions can raise are
  values of the type \<open>error\<close>, and a function that can raise returns \<open>error + 'a\<close>.
\<close>

datatype error = IndexError | TypeError

text \<open>Reading \<^verbatim>\<open>xs[i]\<close> for a non-negative index: out of range raises IndexError.\<close>

definition at_index :: "'a list \<Rightarrow> nat \<Rightarrow> error + 'a" where
  "at_index xs i = (if i < length xs then Inr (xs ! i) else Inl IndexError)"

text \<open>\<^verbatim>\<open>np.deg2rad(x)\<close> is \<^verbatim>\<open>x * (pi / 180)\<close>.\<close>

definition deg2rad :: "real \<Rightarrow> real" where
  "deg2rad x = x * (pi / 180)"

subsection \<open>lat\_dist\<close>

text \<open>The literal \<^verbatim>\<open>111 * 10e2\<close>: \<^verbatim>\<open>10e2\<close> is ten times ten squared.\<close>

definition deg_2_m :: real where
  "deg_2_m = 111 * (10 * 10 ^ 2)"

definition lat_dist :: "real \<Rightarrow> real list \<Rightarrow> real list" where
  "lat_dist lat_base distance =
     (let base_m = lat_base * deg_2_m;
          est_m = map (\<lambda>d. d + base_m) distance
      in map (\<lambda>e. e / deg_2_m) est_m)"

subsection \<open>gn\<close>

definition gn :: "real list \<Rightarrow> real list" where
  "gn latitude =
     (let latitude = map deg2rad latitude
      in map (\<lambda>l. 978031.846 * (1 + 0.0053024 * (sin l)\<^sup>2 - 0.0000058 * sin (2 * l))) latitude)"

subsection \<open>relative\_g\<close>

text \<open>\<^verbatim>\<open>g_obs - g_obs[0]\<close>: the read of element 0 raises on an empty array.\<close>

definition relative_g :: "real list \<Rightarrow> error + real list" where
  "relative_g g_obs =
     (case at_index g_obs 0 of
        Inl e \<Rightarrow> Inl e
      | Inr g0 \<Rightarrow> Inr (map (\<lambda>g. g - g0) g_obs))"

subsection \<open>latitude\_correction\<close>

text \<open>
  The optional arguments \<^verbatim>\<open>st_latitude\<close> and \<^verbatim>\<open>distance\<close> default to
  \<^verbatim>\<open>None\<close>. With \<^verbatim>\<open>distance\<close> absent the station latitudes are used, and
  \<^verbatim>\<open>None - base_latitude\<close> raises TypeError when they are absent too.
\<close>

definition latitude_correction ::
  "real \<Rightarrow> real list option \<Rightarrow> real list option \<Rightarrow> error + real list" where
  "latitude_correction base_latitude st_latitude distance =
     (case distance of
        None \<Rightarrow>
          (case st_latitude of
             None \<Rightarrow> Inl TypeError
           | Some st \<Rightarrow>
               (let r = 6367.44;
                    dl = map (\<lambda>l. l - base_latitude) st;
                    dy = map (\<lambda>d. r * d) dl;
                    base_latitude = deg2rad base_latitude
                in Inr (map (\<lambda>y. 0.811 * sin (2 * base_latitude) * y) dy)))
      | Some ds \<Rightarrow>
          (let base_latitude = deg2rad base_latitude
           in Inr (map (\<lambda>d. 0.811 * sin (2 * base_latitude) * d) ds)))"

subsection \<open>drift\_correction\<close>

text \<open>
  Division of numpy floats by zero does not raise: it yields \<^verbatim>\<open>inf\<close> or
  \<^verbatim>\<open>nan\<close> (with a warning), and every sum or product of such a value with a finite
  number is again \<^verbatim>\<open>inf\<close> or \<^verbatim>\<open>nan\<close>. The entries of the drift array are
  therefore either an ordinary number or \<open>Undefined\<close>, which stands for these non-finite
  results. The inputs \<^verbatim>\<open>time\<close> and \<^verbatim>\<open>g_read\<close> hold ordinary numbers.
\<close>

datatype fval = Num real | Undefined

definition v_div :: "real \<Rightarrow> real \<Rightarrow> fval" where
  "v_div a b = (if b = 0 then Undefined else Num (a / b))"

fun v_mul :: "fval \<Rightarrow> fval \<Rightarrow> fval" where
  "v_mul (Num a) (Num b) = Num (a * b)"
| "v_mul _ _ = Undefined"

fun v_add :: "fval \<Rightarrow> fval \<Rightarrow> fval" where
  "v_add (Num a) (Num b) = Num (a + b)"
| "v_add _ _ = Undefined"

text \<open>\<^verbatim>\<open>np.where(station == b)[0]\<close>: the indices holding the label \<open>b\<close>, ascending.\<close>

definition where_eq :: "string list \<Rightarrow> string \<Rightarrow> nat list" where
  "where_eq station b = filter (\<lambda>i. station ! i = b) [0..<length station]"

text \<open>
  The local variables of the function. \<^verbatim>\<open>initial_time\<close> and \<^verbatim>\<open>final_time\<close>
  are unbound until the branch of the loop assigns them; the statement computing
  \<^verbatim>\<open>g_dc[i]\<close> reads \<^verbatim>\<open>initial_t\<close> and \<^verbatim>\<open>final_t\<close>, which only the
  initialisation before the loop assigns.
\<close>

record drift_state =
  j :: nat
  initial_g :: real
  final_g :: real
  initial_t :: real
  final_t :: real
  initial_time :: "real option"
  final_time :: "real option"
  base_dc :: fval
  g_dc :: "fval list"

text \<open>The body of \<^verbatim>\<open>if i - 1 != 0 and i - 1 in idxs:\<close> (lines 103 to 108).\<close>

definition advance ::
  "real list \<Rightarrow> real list \<Rightarrow> nat list \<Rightarrow> nat \<Rightarrow> drift_state \<Rightarrow> error + drift_state" where
  "advance time g_read idxs i s =
     (let j' = j s + 1 in
      (case at_index g_read (i - 1) of Inl e \<Rightarrow> Inl e | Inr ig \<Rightarrow>
      (case at_index idxs j' of Inl e \<Rightarrow> Inl e | Inr b \<Rightarrow>
      (case at_index g_read b of Inl e \<Rightarrow> Inl e | Inr fg \<Rightarrow>
      (case at_index time (i - 1) of Inl e \<Rightarrow> Inl e | Inr it \<Rightarrow>
      (case at_index time b of Inl e \<Rightarrow> Inl e | Inr ft \<Rightarrow>
      (case at_index (g_dc s) (i - 1) of Inl e \<Rightarrow> Inl e | Inr d \<Rightarrow>
        Inr (s\<lparr>j := j', initial_g := ig, final_g := fg,
               initial_time := Some it, final_time := Some ft, base_dc := d\<rparr>))))))))"

text \<open>
  One iteration of \<^verbatim>\<open>for i in range(g_dc.size)\<close>. At \<open>i = 0\<close> the Python
  \<^verbatim>\<open>i - 1\<close> is \<open>-1\<close>, which is not 0 and is not in \<^verbatim>\<open>idxs\<close>: the branch is
  not taken, which the guard \<open>0 < i\<close> states for the natural number \<open>i\<close>.
\<close>

definition drift_step ::
  "real list \<Rightarrow> real list \<Rightarrow> nat list \<Rightarrow> nat \<Rightarrow> drift_state \<Rightarrow> error + drift_state" where
  "drift_step time g_read idxs i s =
     (case (if 0 < i \<and> i - 1 \<noteq> 0 \<and> i - 1 \<in> set idxs
            then advance time g_read idxs i s else Inr s) of
        Inl e \<Rightarrow> Inl e
      | Inr s1 \<Rightarrow>
          (case at_index time i of
             Inl e \<Rightarrow> Inl e
           | Inr ti \<Rightarrow>
               if i < length (g_dc s1)
               then Inr (s1\<lparr>g_dc := (g_dc s1)
                      [i := v_add (v_mul (v_div (final_g s1 - initial_g s1)
                                                (final_t s1 - initial_t s1))
                                         (Num (ti - initial_t s1)))
                                  (base_dc s1)]\<rparr>)
               else Inl IndexError))"

fun drift_loop ::
  "real list \<Rightarrow> real list \<Rightarrow> nat list \<Rightarrow> nat list \<Rightarrow> drift_state \<Rightarrow> error + drift_state" where
  "drift_loop time g_read idxs [] s = Inr s"
| "drift_loop time g_read idxs (i # rest) s =
     (case drift_step time g_read idxs i s of
        Inl e \<Rightarrow> Inl e
      | Inr s' \<Rightarrow> drift_loop time g_read idxs rest s')"

definition drift_correction :: "real list \<Rightarrow> real list \<Rightarrow> string list \<Rightarrow> error + fval list" where
  "drift_correction time g_read station =
     (let g_dc0 = replicate (length g_read) (Num 0);
          base_dc0 = Num 0 in
      (case at_index station 0 of Inl e \<Rightarrow> Inl e | Inr base \<Rightarrow>
      (let idxs = where_eq station base in
      (case at_index g_read 0 of Inl e \<Rightarrow> Inl e | Inr ig \<Rightarrow>
      (case at_index idxs 1 of Inl e \<Rightarrow> Inl e | Inr b1 \<Rightarrow>
      (case at_index g_read b1 of Inl e \<Rightarrow> Inl e | Inr fg \<Rightarrow>
      (case at_index time 0 of Inl e \<Rightarrow> Inl e | Inr it \<Rightarrow>
      (case at_index time b1 of Inl e \<Rightarrow> Inl e | Inr ft \<Rightarrow>
      (case drift_loop time g_read idxs [0..<length g_read]
              \<lparr>j = 1, initial_g = ig, final_g = fg, initial_t = it, final_t = ft,
               initial_time = None, final_time = None, base_dc = base_dc0, g_dc = g_dc0\<rparr> of
         Inl e \<Rightarrow> Inl e
       | Inr s \<Rightarrow> Inr (g_dc s))))))))))"

subsection \<open>Auxiliary notions for reasoning about the loop\<close>

text \<open>
  The facts about \<^verbatim>\<open>idxs\<close> the loop relies on: ascending without repetition, at
  least two entries, and first entry 0.
\<close>

definition idxs_ok :: "nat list \<Rightarrow> bool" where
  "idxs_ok idxs \<longleftrightarrow> sorted_wrt (<) idxs \<and> 1 < length idxs \<and> idxs ! 0 = 0"

text \<open>
  Record \<open>k\<close> lies in segment \<open>p\<close> when it comes after base occurrence \<open>p\<close> and not
  after base occurrence \<open>p + 1\<close>; record 0 lies in segment 0.
\<close>

definition in_segment :: "nat list \<Rightarrow> nat \<Rightarrow> nat \<Rightarrow> bool" where
  "in_segment idxs p k \<longleftrightarrow> Suc p < length idxs \<and> (p = 0 \<or> idxs ! p < k) \<and> k \<le> idxs ! Suc p"

text \<open>
  The value the loop stores at record \<open>k\<close> of segment \<open>p\<close>: the readings are those of
  the base occurrences bounding the segment, the times are those of the first two base
  occurrences, and the offset is the stored drift at the base occurrence that opened the
  segment (0 for the first segment).
\<close>

definition drift_value :: "real list \<Rightarrow> real list \<Rightarrow> nat list \<Rightarrow> fval list \<Rightarrow> nat \<Rightarrow> nat \<Rightarrow> fval" where
  "drift_value time g_read idxs dc p k =
     v_add (v_mul (v_div (g_read ! (idxs ! Suc p) - g_read ! (idxs ! p))
                         (time ! (idxs ! 1) - time ! 0))
                  (Num (time ! k - time ! 0)))
           (if p = 0 then Num 0 else dc ! (idxs ! p))"

text \<open>
  The loop invariant. The cursor bounds are stated for the iterations before \<open>mj\<close>, the
  stored values for the records before \<open>mv\<close>; between the branch and the assignment
  of one iteration the two differ by one.
\<close>

definition drift_inv ::
  "real list \<Rightarrow> real list \<Rightarrow> nat list \<Rightarrow> nat \<Rightarrow> nat \<Rightarrow> drift_state \<Rightarrow> bool" where
  "drift_inv time g_read idxs mj mv s \<longleftrightarrow>
     length (g_dc s) = length g_read \<and>
     1 \<le> j s \<and> j s < length idxs \<and>
     (j s = 1 \<or> idxs ! (j s - 1) + 1 < mj) \<and> mj \<le> idxs ! (j s) + 1 \<and>
     initial_g s = g_read ! (idxs ! (j s - 1)) \<and> final_g s = g_read ! (idxs ! (j s)) \<and>
     initial_t s = time ! 0 \<and> final_t s = time ! (idxs ! 1) \<and>
     base_dc s = (if j s = 1 then Num 0 else g_dc s ! (idxs ! (j s - 1))) \<and>
     (\<forall>k<mv. \<forall>p. in_segment idxs p k \<longrightarrow> g_dc s ! k = drift_value time g_read idxs (g_dc s) p k)"

text \<open>The state in which \<^const>\<open>drift_correction\<close> enters the loop.\<close>

definition drift_init :: "real list \<Rightarrow> real list \<Rightarrow> nat list \<Rightarrow> drift_state" where
  "drift_init time g_read idxs =
     \<lparr>j = 1, initial_g = g_read ! 0, final_g = g_read ! (idxs ! 1),
      initial_t = time ! 0, final_t = time ! (idxs ! 1),
      initial_time = None, final_time = None, base_dc = Num 0,
      g_dc = replicate (length g_read) (Num 0)\<rparr>"

section \<open>Closed-form corrections\<close>

text \<open>
  C7. \<^verbatim>\<open>lat_dist\<close> round-trips exactly under exact arithmetic: the conversion factor
  is exactly 111000, and for every base latitude and every sequence of distances,
  multiplying each result by the factor and subtracting the base latitude times the
  factor gives the distances back.
\<close>

theorem lat_dist_round_trip:
  "deg_2_m = 111000 \<and>
   map (\<lambda>l. l * 111000 - lat_base * 111000) (lat_dist lat_base distance) = distance"
proof -
  have factor: "deg_2_m = 111000"
    by (simp add: deg_2_m_def)
  have recover: "(d + lat_base * 111000) / 111000 * 111000 - lat_base * 111000 = d" for d :: real
    by (simp add: field_simps)
  have "map (\<lambda>l. l * 111000 - lat_base * 111000) (lat_dist lat_base distance)
        = map (\<lambda>d. d) distance"
    unfolding lat_dist_def Let_def factor map_map o_def recover ..
  then show ?thesis
    using factor by simp
qed

text \<open>
  C8. Under exact real arithmetic the normal gravity at latitude 0 is 978031.846 and at
  latitude 90 degrees it is 978031.846 times 1.0053024.
\<close>

theorem gn_at_0_and_90:
  "gn [0, 90] = [978031.846, 978031.846 * 1.0053024]"
  by (simp add: gn_def deg2rad_def)

text \<open>
  C9. For every non-empty input sequence, \<^verbatim>\<open>relative_g\<close> returns a sequence of the
  same length whose first element is 0 and whose element \<open>i\<close> is the input's element
  \<open>i\<close> minus the input's element 0.
\<close>

theorem relative_g_subtracts_base:
  assumes "g_obs \<noteq> []"
  shows "\<exists>g_rel. relative_g g_obs = Inr g_rel \<and> length g_rel = length g_obs \<and>
           g_rel ! 0 = 0 \<and> (\<forall>i<length g_obs. g_rel ! i = g_obs ! i - g_obs ! 0)"
  using assms by (simp add: relative_g_def at_index_def)

theorem relative_g_subtracts_base_witness:
  "\<exists>g_rel. relative_g [5, 7, 4] = Inr g_rel \<and> length g_rel = length [5, 7, 4 :: real] \<and>
     g_rel ! 0 = 0 \<and> (\<forall>i<length [5, 7, 4 :: real]. g_rel ! i = [5, 7, 4] ! i - [5, 7, 4] ! 0)"
proof -
  have nonempty: "[5, 7, 4 :: real] \<noteq> []"
    by simp
  show ?thesis
    by (rule relative_g_subtracts_base [OF nonempty])
qed

text \<open>
  C6. Whenever the distance argument is supplied, \<^verbatim>\<open>latitude_correction\<close> returns
  0.811 times the sine of twice the base latitude in radians times each distance, and
  the result is the same for any two values of the station latitude argument, supplied
  or not.
\<close>

theorem latitude_correction_distance_mode:
  "latitude_correction base_latitude st_latitude (Some ds)
     = Inr (map (\<lambda>d. 0.811 * sin (2 * deg2rad base_latitude) * d) ds) \<and>
   latitude_correction base_latitude st_latitude (Some ds)
     = latitude_correction base_latitude st_latitude' (Some ds)"
  by (simp add: latitude_correction_def)

section \<open>The drift corrector\<close>

subsection \<open>Positions in the index list\<close>

lemma idxs_mono: "idxs_ok idxs \<Longrightarrow> a \<le> b \<Longrightarrow> b < length idxs \<Longrightarrow> idxs ! a \<le> idxs ! b"
  using sorted_wrt_nth_less[of "(<)" idxs a b] by (cases "a = b") (auto simp: idxs_ok_def)

lemma idxs_strict: "idxs_ok idxs \<Longrightarrow> a < b \<Longrightarrow> b < length idxs \<Longrightarrow> idxs ! a < idxs ! b"
  by (auto simp: idxs_ok_def intro: sorted_wrt_nth_less)

lemma idxs_less_imp:
  "idxs_ok idxs \<Longrightarrow> idxs ! a < idxs ! b \<Longrightarrow> a < length idxs \<Longrightarrow> a < b"
  using idxs_mono[of idxs b a] by (cases "a < b") auto

lemma advance_position:
  assumes ok: "idxs_ok idxs" and j1: "1 \<le> js" "js < length idxs"
    and lo: "js = 1 \<or> idxs ! (js - 1) + 1 < m" and hi: "m \<le> idxs ! js + 1"
    and cond: "0 < m" "m - 1 \<noteq> 0" "m - 1 \<in> set idxs"
  shows "idxs ! js = m - 1"
proof -
  from cond(3) obtain q where q: "q < length idxs" "idxs ! q = m - 1"
    by (auto simp: in_set_conv_nth)
  have q0: "q \<noteq> 0"
  proof
    assume "q = 0"
    with q ok have "m - 1 = 0"
      by (simp add: idxs_ok_def)
    with cond(2) show False
      by simp
  qed
  have "js \<le> q"
  proof (rule ccontr)
    assume "\<not> js \<le> q"
    then have qlt: "q \<le> js - 1" "js \<noteq> 1"
      using q0 by auto
    then have "idxs ! q \<le> idxs ! (js - 1)"
      using idxs_mono[OF ok, of q "js - 1"] j1 by auto
    with lo qlt q cond show False
      by auto
  qed
  then have "idxs ! js \<le> idxs ! q"
    using idxs_mono[OF ok _ q(1)] by auto
  with hi q cond show ?thesis
    by auto
qed

lemma no_advance_position:
  assumes ok: "idxs_ok idxs" and j1: "1 \<le> js" "js < length idxs"
    and hi: "m \<le> idxs ! js + 1"
    and cond: "\<not> (0 < m \<and> m - 1 \<noteq> 0 \<and> m - 1 \<in> set idxs)"
  shows "m \<le> idxs ! js"
proof (rule ccontr)
  assume "\<not> m \<le> idxs ! js"
  with hi have m: "m = idxs ! js + 1"
    by auto
  have "idxs ! 0 < idxs ! js"
    using idxs_strict[OF ok, of 0 js] j1 by auto
  then have "0 < idxs ! js"
    using ok by (simp add: idxs_ok_def)
  moreover have "idxs ! js \<in> set idxs"
    using j1 by simp
  ultimately show False
    using cond m by auto
qed

lemma in_segment_unique:
  assumes ok: "idxs_ok idxs" and p: "in_segment idxs p k" and q: "in_segment idxs q k"
  shows "p = q"
proof -
  have le: "a \<le> b" if a: "in_segment idxs a k" and b: "in_segment idxs b k" for a b
  proof (cases "a = 0")
    case True
    then show ?thesis by simp
  next
    case False
    with a have "idxs ! a < k" "Suc a < length idxs"
      by (auto simp: in_segment_def)
    moreover from b have "k \<le> idxs ! Suc b" "Suc b < length idxs"
      by (auto simp: in_segment_def)
    ultimately have "a < Suc b"
      using idxs_less_imp[OF ok, of a "Suc b"] by auto
    then show ?thesis by simp
  qed
  from le[OF p q] le[OF q p] show ?thesis
    by simp
qed

subsection \<open>The invariant is kept by every iteration\<close>

lemma advance_keeps_inv:
  assumes ok: "idxs_ok idxs" and inv: "drift_inv time g_read idxs m m s"
    and cond: "0 < m" "m - 1 \<noteq> 0" "m - 1 \<in> set idxs"
    and adv: "advance time g_read idxs m s = Inr s1"
  shows "drift_inv time g_read idxs (Suc m) m s1"
proof -
  from inv have jb: "1 \<le> j s" "j s < length idxs"
    and lo: "j s = 1 \<or> idxs ! (j s - 1) + 1 < m" and hi: "m \<le> idxs ! (j s) + 1"
    by (auto simp: drift_inv_def)
  have pos: "idxs ! (j s) = m - 1"
    by (rule advance_position[OF ok jb lo hi cond])
  from adv have in_range: "Suc (j s) < length idxs"
    and s1: "s1 = s\<lparr>j := Suc (j s), initial_g := g_read ! (m - 1),
                     final_g := g_read ! (idxs ! Suc (j s)),
                     initial_time := Some (time ! (m - 1)),
                     final_time := Some (time ! (idxs ! Suc (j s))),
                     base_dc := g_dc s ! (m - 1)\<rparr>"
    by (auto simp: advance_def at_index_def Let_def split: if_splits)
  have nxt: "idxs ! (j s) < idxs ! Suc (j s)"
    using idxs_strict[OF ok _ in_range, of "j s"] by simp
  show ?thesis
    unfolding s1 using inv pos nxt in_range cond by (auto simp: drift_inv_def)
qed

lemma skip_keeps_inv:
  assumes ok: "idxs_ok idxs" and inv: "drift_inv time g_read idxs m m s"
    and cond: "\<not> (0 < m \<and> m - 1 \<noteq> 0 \<and> m - 1 \<in> set idxs)"
  shows "drift_inv time g_read idxs (Suc m) m s"
proof -
  from inv have jb: "1 \<le> j s" "j s < length idxs" and hi: "m \<le> idxs ! (j s) + 1"
    by (auto simp: drift_inv_def)
  have "m \<le> idxs ! (j s)"
    by (rule no_advance_position[OF ok jb hi cond])
  with inv show ?thesis
    by (auto simp: drift_inv_def)
qed

lemma drift_value_update:
  assumes "p = 0 \<or> idxs ! p \<noteq> m"
  shows "drift_value time g_read idxs (dc[m := v]) p k = drift_value time g_read idxs dc p k"
  using assms by (auto simp: drift_value_def)

lemma write_keeps_inv:
  assumes ok: "idxs_ok idxs" and inv: "drift_inv time g_read idxs (Suc m) m s1"
    and m: "m < length (g_dc s1)"
  shows "drift_inv time g_read idxs (Suc m) (Suc m)
           (s1\<lparr>g_dc := (g_dc s1)
              [m := v_add (v_mul (v_div (final_g s1 - initial_g s1)
                                        (final_t s1 - initial_t s1))
                                 (Num (time ! m - initial_t s1)))
                          (base_dc s1)]\<rparr>)"
    (is "drift_inv _ _ _ _ _ (s1\<lparr>g_dc := (g_dc s1)[m := ?v]\<rparr>)")
proof -
  from inv have jb: "1 \<le> j s1" "j s1 < length idxs"
    and lo: "j s1 = 1 \<or> idxs ! (j s1 - 1) < m" and hi: "m \<le> idxs ! (j s1)"
    and vals: "\<And>k p. k < m \<Longrightarrow> in_segment idxs p k \<Longrightarrow>
                 g_dc s1 ! k = drift_value time g_read idxs (g_dc s1) p k"
    by (auto simp: drift_inv_def)
  have cur: "in_segment idxs (j s1 - 1) m"
    using jb lo hi by (auto simp: in_segment_def)
  have v: "?v = drift_value time g_read idxs (g_dc s1) (j s1 - 1) m"
    using inv jb by (auto simp: drift_inv_def drift_value_def)
  have anchor: "j s1 \<noteq> 1 \<Longrightarrow> (g_dc s1)[m := ?v] ! (idxs ! (j s1 - 1)) = g_dc s1 ! (idxs ! (j s1 - 1))"
    using lo by auto
  have new_vals: "(g_dc s1)[m := ?v] ! k = drift_value time g_read idxs ((g_dc s1)[m := ?v]) p k"
    if k: "k < Suc m" and seg: "in_segment idxs p k" for k p
  proof -
    from seg k have unchanged: "p = 0 \<or> idxs ! p \<noteq> m"
      by (auto simp: in_segment_def)
    have same: "drift_value time g_read idxs ((g_dc s1)[m := ?v]) p k
                = drift_value time g_read idxs (g_dc s1) p k"
      by (rule drift_value_update[OF unchanged])
    show ?thesis
    proof (cases "k = m")
      case True
      with seg cur have "p = j s1 - 1"
        using in_segment_unique[OF ok] by blast
      with True v have "?v = drift_value time g_read idxs (g_dc s1) p k"
        by simp
      with True m same show ?thesis
        by simp
    next
      case False
      with k have "k < m"
        by simp
      from vals[OF this seg] False same show ?thesis
        by simp
    qed
  qed
  show ?thesis
    unfolding drift_inv_def using inv anchor new_vals by (auto simp: drift_inv_def)
qed

lemma drift_step_keeps_inv:
  assumes ok: "idxs_ok idxs" and inv: "drift_inv time g_read idxs m m s"
    and step: "drift_step time g_read idxs m s = Inr s'"
  shows "drift_inv time g_read idxs (Suc m) (Suc m) s'"
proof -
  let ?c = "0 < m \<and> m - 1 \<noteq> 0 \<and> m - 1 \<in> set idxs"
  from step obtain s1 where pre: "(if ?c then advance time g_read idxs m s else Inr s) = Inr s1"
    and m: "m < length (g_dc s1)"
    and s': "s' = s1\<lparr>g_dc := (g_dc s1)
              [m := v_add (v_mul (v_div (final_g s1 - initial_g s1)
                                        (final_t s1 - initial_t s1))
                                 (Num (time ! m - initial_t s1)))
                          (base_dc s1)]\<rparr>"
    unfolding drift_step_def at_index_def by (auto split: sum.splits if_splits)
  have "drift_inv time g_read idxs (Suc m) m s1"
  proof (cases ?c)
    case True
    with pre have "advance time g_read idxs m s = Inr s1"
      by simp
    with True advance_keeps_inv[OF ok inv] show ?thesis
      by blast
  next
    case False
    with pre have "s1 = s"
      by (simp only: if_False sum.inject)
    with skip_keeps_inv[OF ok inv False] show ?thesis
      by simp
  qed
  from write_keeps_inv[OF ok this m] show ?thesis
    unfolding s' .
qed

lemma drift_loop_keeps_inv:
  assumes ok: "idxs_ok idxs"
  shows "drift_inv time g_read idxs m m s \<Longrightarrow> m \<le> n \<Longrightarrow>
         drift_loop time g_read idxs [m..<n] s = Inr s' \<Longrightarrow>
         drift_inv time g_read idxs n n s'"
proof (induction "n - m" arbitrary: m s)
  case 0
  then show ?case by simp
next
  case (Suc d)
  then have lt: "m < n"
    by simp
  from Suc.prems(3) obtain s1 where step: "drift_step time g_read idxs m s = Inr s1"
    and rest: "drift_loop time g_read idxs [Suc m..<n] s1 = Inr s'"
    by (auto simp: upt_conv_Cons[OF lt] split: sum.splits)
  have "drift_inv time g_read idxs (Suc m) (Suc m) s1"
    by (rule drift_step_keeps_inv[OF ok Suc.prems(1) step])
  from Suc.hyps(1)[OF _ this _ rest] Suc.hyps(2) lt show ?case
    by simp
qed

subsection \<open>The base indices and the whole function\<close>

lemma where_eq_sorted: "sorted_wrt (<) (where_eq station b)"
  by (simp add: where_eq_def sorted_wrt_filter)

lemma where_eq_set: "set (where_eq station b) = {i. i < length station \<and> station ! i = b}"
  by (auto simp: where_eq_def)

lemma where_eq_cons:
  "station \<noteq> [] \<Longrightarrow>
   where_eq station (station ! 0)
     = 0 # filter (\<lambda>i. station ! i = station ! 0) [Suc 0..<length station]"
  by (simp add: where_eq_def upt_conv_Cons)

lemma where_eq_recurs:
  assumes "station \<noteq> []"
  shows "1 < length (where_eq station (station ! 0))
         \<longleftrightarrow> (\<exists>i. 0 < i \<and> i < length station \<and> station ! i = station ! 0)"
proof -
  have "1 < length (where_eq station (station ! 0))
        \<longleftrightarrow> filter (\<lambda>i. station ! i = station ! 0) [Suc 0..<length station] \<noteq> []"
    by (simp add: where_eq_cons[OF assms])
  also have "\<dots> \<longleftrightarrow> (\<exists>i. 0 < i \<and> i < length station \<and> station ! i = station ! 0)"
    by (auto simp: filter_empty_conv Suc_le_eq)
  finally show ?thesis .
qed

lemma where_eq_ok:
  "station \<noteq> [] \<Longrightarrow> 1 < length (where_eq station (station ! 0)) \<Longrightarrow>
   idxs_ok (where_eq station (station ! 0))"
  by (simp add: idxs_ok_def where_eq_sorted) (simp add: where_eq_cons)

lemma drift_correction_Inr:
  assumes "drift_correction time g_read station = Inr dc"
    and "idxs = where_eq station (station ! 0)"
  shows "station \<noteq> [] \<and> g_read \<noteq> [] \<and> 1 < length idxs \<and>
         (\<exists>s. drift_loop time g_read idxs [0..<length g_read] (drift_init time g_read idxs) = Inr s
              \<and> dc = g_dc s)"
  using assms
  by (auto simp: drift_correction_def drift_init_def at_index_def Let_def
           split: if_splits sum.splits)

lemma drift_init_inv:
  "idxs_ok idxs \<Longrightarrow> drift_inv time g_read idxs 0 0 (drift_init time g_read idxs)"
  by (simp add: drift_inv_def drift_init_def idxs_ok_def)

lemma drift_correction_values:
  assumes run: "drift_correction time g_read station = Inr dc"
    and idxs: "idxs = where_eq station (station ! 0)"
  shows "length dc = length g_read \<and> dc \<noteq> [] \<and> 1 < length idxs \<and>
         (\<forall>k p. k < length dc \<longrightarrow> in_segment idxs p k \<longrightarrow>
                dc ! k = drift_value time g_read idxs dc p k)"
proof -
  from drift_correction_Inr[OF run idxs] obtain s
    where ne: "station \<noteq> []" "g_read \<noteq> []" and len: "1 < length idxs"
      and loop: "drift_loop time g_read idxs [0..<length g_read] (drift_init time g_read idxs) = Inr s"
      and dc: "dc = g_dc s"
    by blast
  have ok: "idxs_ok idxs"
    unfolding idxs using ne len idxs by (intro where_eq_ok) simp_all
  have "drift_inv time g_read idxs (length g_read) (length g_read) s"
    by (rule drift_loop_keeps_inv[OF ok drift_init_inv[OF ok] _ loop]) simp
  with dc ne len show ?thesis
    by (auto simp: drift_inv_def)
qed

subsection \<open>Well-formed surveys are processed without error\<close>

lemma drift_step_succeeds:
  assumes ok: "idxs_ok idxs" and inv: "drift_inv time g_read idxs m m s"
    and m: "m < length g_read" and tl: "length time = length g_read"
    and bound: "\<And>i. i \<in> set idxs \<Longrightarrow> i < length g_read"
    and lst: "length g_read - 1 \<in> set idxs"
  shows "\<exists>s'. drift_step time g_read idxs m s = Inr s'"
proof -
  from inv have jb: "1 \<le> j s" "j s < length idxs"
    and lo: "j s = 1 \<or> idxs ! (j s - 1) + 1 < m" and hi: "m \<le> idxs ! (j s) + 1"
    and len: "length (g_dc s) = length g_read"
    by (auto simp: drift_inv_def)
  show ?thesis
  proof (cases "0 < m \<and> m - 1 \<noteq> 0 \<and> m - 1 \<in> set idxs")
    case True
    then have pos: "idxs ! (j s) = m - 1"
      using advance_position[OF ok jb lo hi] by blast
    from lst obtain q where q: "q < length idxs" "idxs ! q = length g_read - 1"
      by (auto simp: in_set_conv_nth)
    have "idxs ! (j s) < idxs ! q"
      using pos q m True by arith
    then have "j s < q"
      using idxs_less_imp[OF ok _ jb(2)] by blast
    then have nx: "Suc (j s) < length idxs"
      using q by simp
    then have "idxs ! Suc (j s) < length g_read"
      using bound by simp
    with True nx m tl len show ?thesis
      by (simp add: drift_step_def advance_def at_index_def Let_def)
  next
    case False
    then have "drift_step time g_read idxs m s =
        (case at_index time m of Inl e \<Rightarrow> Inl e
         | Inr ti \<Rightarrow> if m < length (g_dc s)
             then Inr (s\<lparr>g_dc := (g_dc s)
                      [m := v_add (v_mul (v_div (final_g s - initial_g s)
                                                (final_t s - initial_t s))
                                         (Num (ti - initial_t s)))
                                  (base_dc s)]\<rparr>)
             else Inl IndexError)"
      unfolding drift_step_def by (simp only: if_False sum.case)
    with m tl len show ?thesis
      by (simp add: at_index_def)
  qed
qed

lemma drift_loop_succeeds:
  assumes ok: "idxs_ok idxs" and tl: "length time = length g_read"
    and bound: "\<And>i. i \<in> set idxs \<Longrightarrow> i < length g_read"
    and lst: "length g_read - 1 \<in> set idxs"
  shows "drift_inv time g_read idxs m m s \<Longrightarrow> m \<le> n \<Longrightarrow> n \<le> length g_read \<Longrightarrow>
         \<exists>s'. drift_loop time g_read idxs [m..<n] s = Inr s'"
proof (induction "n - m" arbitrary: m s)
  case 0
  then show ?case by simp
next
  case (Suc d)
  then have lt: "m < n" and mlen: "m < length g_read"
    by simp_all
  from drift_step_succeeds[OF ok Suc.prems(1) mlen tl bound lst]
  obtain s1 where step: "drift_step time g_read idxs m s = Inr s1"
    by blast
  have inv1: "drift_inv time g_read idxs (Suc m) (Suc m) s1"
    by (rule drift_step_keeps_inv[OF ok Suc.prems(1) step])
  have "\<exists>s'. drift_loop time g_read idxs [Suc m..<n] s1 = Inr s'"
    by (rule Suc.hyps(1)[OF _ inv1]) (use Suc.hyps(2) lt Suc.prems(3) in simp_all)
  with step show ?case
    by (simp add: upt_conv_Cons[OF lt])
qed

lemma drift_correction_returns:
  assumes tl: "length time = length g_read" and sl: "length station = length g_read"
    and two: "2 \<le> length station"
    and lst: "station ! (length station - 1) = station ! 0"
  shows "\<exists>dc. drift_correction time g_read station = Inr dc"
proof -
  let ?idxs = "where_eq station (station ! 0)"
  have ne: "station \<noteq> []"
    using two by auto
  have "\<exists>i. 0 < i \<and> i < length station \<and> station ! i = station ! 0"
    using two lst by (intro exI[of _ "length station - 1"]) simp
  then have len: "1 < length ?idxs"
    using where_eq_recurs[OF ne] by blast
  have ok: "idxs_ok ?idxs"
    by (rule where_eq_ok[OF ne len])
  have bound: "\<And>i. i \<in> set ?idxs \<Longrightarrow> i < length g_read"
    using sl by (simp add: where_eq_set)
  have last_in: "length g_read - 1 \<in> set ?idxs"
    using sl lst two by (simp add: where_eq_set)
  have b1: "?idxs ! 1 < length g_read"
    using bound len by simp
  have gne: "g_read \<noteq> []"
    using sl two by auto
  have "\<exists>s. drift_loop time g_read ?idxs [0..<length g_read]
                    (drift_init time g_read ?idxs) = Inr s"
    by (rule drift_loop_succeeds[OF ok tl bound last_in drift_init_inv[OF ok]]) simp_all
  then obtain s where "drift_loop time g_read ?idxs [0..<length g_read]
                    (drift_init time g_read ?idxs) = Inr s"
    by blast
  with ne gne len b1 tl sl two show ?thesis
    by (simp add: drift_correction_def drift_init_def at_index_def Let_def)
qed

subsection \<open>Equal times at the first two base occurrences\<close>

lemma drift_step_undefined:
  assumes "final_t s = initial_t s" and "drift_step time g_read idxs m s = Inr s'"
    and "\<forall>k<m. g_dc s ! k = Undefined"
  shows "final_t s' = initial_t s' \<and> length (g_dc s') = length (g_dc s) \<and>
         (\<forall>k<Suc m. g_dc s' ! k = Undefined)"
  using assms
  by (auto simp: drift_step_def advance_def at_index_def Let_def v_div_def less_Suc_eq
      nth_list_update split: if_splits sum.splits)

lemma drift_loop_undefined:
  "final_t s = initial_t s \<Longrightarrow> \<forall>k<m. g_dc s ! k = Undefined \<Longrightarrow> m \<le> n \<Longrightarrow>
   drift_loop time g_read idxs [m..<n] s = Inr s' \<Longrightarrow>
   length (g_dc s') = length (g_dc s) \<and> (\<forall>k<n. g_dc s' ! k = Undefined)"
proof (induction "n - m" arbitrary: m s)
  case 0
  then show ?case by simp
next
  case (Suc d)
  then have lt: "m < n"
    by simp
  from Suc.prems(4) obtain s1 where step: "drift_step time g_read idxs m s = Inr s1"
    and rest: "drift_loop time g_read idxs [Suc m..<n] s1 = Inr s'"
    by (auto simp: upt_conv_Cons[OF lt] split: sum.splits)
  from drift_step_undefined[OF Suc.prems(1) step Suc.prems(2)]
  have s1: "final_t s1 = initial_t s1" "length (g_dc s1) = length (g_dc s)"
    "\<forall>k<Suc m. g_dc s1 ! k = Undefined"
    by blast+
  from Suc.hyps(1)[OF _ s1(1) s1(3) _ rest] Suc.hyps(2) lt s1(2) show ?case
    by simp
qed

lemma drift_step_error: "drift_step time g_read idxs i s = Inl e \<Longrightarrow> e = IndexError"
  by (auto simp: drift_step_def advance_def at_index_def Let_def split: if_splits sum.splits)

lemma drift_loop_error: "drift_loop time g_read idxs xs s = Inl e \<Longrightarrow> e = IndexError"
  by (induction xs arbitrary: s) (auto split: sum.splits dest: drift_step_error)

lemma drift_correction_error: "drift_correction time g_read station = Inl e \<Longrightarrow> e = IndexError"
  by (auto simp: drift_correction_def at_index_def Let_def
      split: if_splits sum.splits dest: drift_loop_error)

subsection \<open>Properties of the drift corrector\<close>

lemmas drift_eval = drift_correction_def where_eq_def at_index_def drift_step_def advance_def
      v_div_def upt_rec

text \<open>
  C2. For the single-segment scenario with times 0, 1, 2, 3, stations B, S1, S2, B and
  readings 100, 101, 102, 106, \<^verbatim>\<open>drift_correction\<close> returns exactly 0, 2, 4, 6.
\<close>

theorem drift_single_segment:
  "drift_correction [0, 1, 2, 3] [100, 101, 102, 106] [''B'', ''S1'', ''S2'', ''B'']
     = Inr [Num 0, Num 2, Num 4, Num 6]"
  by (simp add: drift_eval)

text \<open>
  C1. The claim: for a record of a segment after the first, the drift is interpolated
  over the bounds of the current segment, times included. The branch of the loop stores
  the times of the new segment in \<^verbatim>\<open>initial_time\<close> and \<^verbatim>\<open>final_time\<close>, while
  the interpolation reads \<^verbatim>\<open>initial_t\<close> and \<^verbatim>\<open>final_t\<close>, which keep the times
  of the first segment. With times 0, 1, 2, 3, 4, readings 100, 102, 104, 107, 108 and
  stations B, S1, B, S2, B the function returns 0, 2, 4, 10, 12, where interpolation
  over the second segment's own bounds (times 2 and 4, offset 4) gives 6 and 8 for
  records 3 and 4.
\<close>

theorem drift_stale_time_bounds:
  "drift_correction [0, 1, 2, 3, 4] [100, 102, 104, 107, 108] [''B'', ''S1'', ''B'', ''S2'', ''B'']
     = Inr [Num 0, Num 2, Num 4, Num 10, Num 12] \<and>
   v_add (v_mul (v_div (108 - 104) (4 - 2)) (Num (3 - 2))) (Num 4) = Num 6 \<and>
   v_add (v_mul (v_div (108 - 104) (4 - 2)) (Num (4 - 2))) (Num 4) = Num 8"
  by (simp add: drift_eval)

text \<open>
  C3. The drift is cumulative across segments. Let \<open>b\<close> be a base revisit other than
  record 0, that is entry \<open>p \<ge> 1\<close> of the base indices, and let \<open>k\<close> be a record of the
  segment it opens (after \<open>b\<close>, up to the next base index). Whenever the function
  returns, the drift at \<open>k\<close> is the interpolation term the function computes for \<open>k\<close>
  plus the drift stored at \<open>b\<close>: the offset is the previous segment's final drift and is
  never reset to 0. The witness is the scenario with times 0, 1, 2, 3, 4 and stations
  B, S1, B, S2, B, where record 3 is anchored at the drift 4 of record 2.
\<close>

theorem drift_anchored_at_base_revisit:
  assumes "drift_correction time g_read station = Inr dc"
    and "idxs = where_eq station (station ! 0)"
    and "1 \<le> p" and "Suc p < length idxs"
    and "idxs ! p < k" and "k \<le> idxs ! Suc p" and "k < length dc"
  shows "dc ! k = v_add (v_mul (v_div (g_read ! (idxs ! Suc p) - g_read ! (idxs ! p))
                                      (time ! (idxs ! 1) - time ! 0))
                               (Num (time ! k - time ! 0)))
                        (dc ! (idxs ! p))"
proof -
  have "in_segment idxs p k"
    using assms by (simp add: in_segment_def)
  with drift_correction_values[OF assms(1,2)] assms(7)
  have "dc ! k = drift_value time g_read idxs dc p k"
    by blast
  with assms(3) show ?thesis
    by (simp add: drift_value_def)
qed

theorem drift_anchored_at_base_revisit_witness:
  "drift_correction [0, 1, 2, 3, 4] [100, 102, 104, 106, 108] [''B'', ''S1'', ''B'', ''S2'', ''B'']
     = Inr [Num 0, Num 2, Num 4, Num 10, Num 12] \<and>
   [Num 0, Num 2, Num 4, Num 10, Num 12] ! 3
     = v_add (v_mul (v_div (108 - 104) (2 - 0)) (Num (3 - 0)))
             ([Num 0, Num 2, Num 4, Num 10, Num 12] ! 2) \<and>
   [Num 0, Num 2, Num 4, Num 10, Num 12] ! 2 = Num 4"
proof -
  have run: "drift_correction [0, 1, 2, 3, 4] [100, 102, 104, 106, 108]
               [''B'', ''S1'', ''B'', ''S2'', ''B''] = Inr [Num 0, Num 2, Num 4, Num 10, Num 12]"
    by (simp add: drift_eval)
  have idxs: "[0, 2, 4] = where_eq [''B'', ''S1'', ''B'', ''S2'', ''B'']
                            ([''B'', ''S1'', ''B'', ''S2'', ''B''] ! 0)"
    by (simp add: where_eq_def upt_rec)
  from drift_anchored_at_base_revisit[OF run idxs, of 1 3] run show ?thesis
    by simp
qed

text \<open>
  C4. When the label of record 0 occurs at no later record, or when fewer than two base
  occurrences exist (the base indices, record 0 included, are fewer than two), the
  function raises IndexError and returns no drift sequence.
\<close>

theorem drift_missing_base_recurrence:
  assumes "(\<forall>i. 0 < i \<and> i < length station \<longrightarrow> station ! i \<noteq> station ! 0) \<or>
           length (where_eq station (station ! 0)) < 2"
  shows "drift_correction time g_read station = Inl IndexError"
proof (cases "station = []")
  case True
  then show ?thesis
    by (simp add: drift_correction_def at_index_def)
next
  case False
  with assms have "\<not> 1 < length (where_eq station (station ! 0))"
    using where_eq_recurs[OF False] by auto
  with False show ?thesis
    by (simp add: drift_correction_def at_index_def Let_def)
qed

theorem drift_missing_base_recurrence_witness:
  "drift_correction [0, 1, 2] [100, 101, 102] [''B'', ''S1'', ''S2''] = Inl IndexError"
proof -
  have few: "length (where_eq [''B'', ''S1'', ''S2''] ([''B'', ''S1'', ''S2''] ! 0)) < 2"
    by (simp add: where_eq_def upt_rec)
  show ?thesis
    by (rule drift_missing_base_recurrence[OF disjI2[OF few]])
qed

text \<open>
  C5. The claim: the function fails with a division-by-zero kind of result whenever the
  two consecutive base times bounding a segment are equal. With stations B, S1, B, S2, B
  and times 0, 1, 2, 2, 2 the base occurrences 2 and 4 bounding the second segment have
  equal times, so the division over that segment's own bounds is undefined; the
  function divides by the difference of the times of the first segment instead, which
  \<^verbatim>\<open>initial_t\<close> and \<^verbatim>\<open>final_t\<close> keep, and returns the ordinary numbers
  0, 2, 4, 8, 8.
\<close>

theorem drift_later_degenerate_segment:
  "where_eq [''B'', ''S1'', ''B'', ''S2'', ''B''] ([''B'', ''S1'', ''B'', ''S2'', ''B''] ! 0) = [0, 2, 4] \<and>
   [0, 1, 2, 2, 2 :: real] ! 2 = [0, 1, 2, 2, 2] ! 4 \<and>
   v_div ([100, 102, 104, 106, 108] ! 4 - [100, 102, 104, 106, 108] ! 2)
         ([0, 1, 2, 2, 2] ! 4 - [0, 1, 2, 2, 2] ! 2) = Undefined \<and>
   drift_correction [0, 1, 2, 2, 2] [100, 102, 104, 106, 108] [''B'', ''S1'', ''B'', ''S2'', ''B'']
     = Inr [Num 0, Num 2, Num 4, Num 8, Num 8]"
  by (simp add: drift_eval)

text \<open>
  The first segment, whose bounding times the interpolation does read: when the time of
  record 0 equals the time of the second base occurrence, the function returns no
  ordinary number at all. It either raises IndexError or returns a sequence in which
  every entry is an undefined (non-finite) result of the division by zero.
\<close>

theorem drift_equal_first_base_times:
  assumes "time ! 0 = time ! (where_eq station (station ! 0) ! 1)"
  shows "drift_correction time g_read station = Inl IndexError \<or>
         drift_correction time g_read station = Inr (replicate (length g_read) Undefined)"
proof (cases "drift_correction time g_read station")
  case (Inl e)
  then have "e = IndexError"
    by (rule drift_correction_error)
  with Inl show ?thesis
    by simp
next
  case (Inr dc)
  let ?idxs = "where_eq station (station ! 0)"
  from drift_correction_Inr[OF Inr refl] obtain s
    where loop: "drift_loop time g_read ?idxs [0..<length g_read] (drift_init time g_read ?idxs) = Inr s"
      and dc: "dc = g_dc s"
    by blast
  have "length (g_dc s) = length (g_dc (drift_init time g_read ?idxs)) \<and>
        (\<forall>k<length g_read. g_dc s ! k = Undefined)"
    by (rule drift_loop_undefined[OF _ _ _ loop]) (simp_all add: drift_init_def assms)
  then have "g_dc s = replicate (length g_read) Undefined"
    by (auto simp: drift_init_def list_eq_iff_nth_eq)
  with Inr dc show ?thesis
    by simp
qed

theorem drift_equal_first_base_times_witness:
  "drift_correction [5, 5, 6, 7] [1, 2, 3, 4] [''B'', ''B'', ''S1'', ''B'']
     = Inr [Undefined, Undefined, Undefined, Undefined]"
proof -
  have eq: "[5, 5, 6, 7 :: real] ! 0
            = [5, 5, 6, 7] ! (where_eq [''B'', ''B'', ''S1'', ''B'']
                                ([''B'', ''B'', ''S1'', ''B''] ! 0) ! 1)"
    by (simp add: where_eq_def upt_rec)
  have "drift_correction [5, 5, 6, 7] [1, 2, 3, 4] [''B'', ''B'', ''S1'', ''B'']
          \<noteq> Inl IndexError"
    by (simp add: drift_eval)
  with drift_equal_first_base_times[OF eq, of "[1, 2, 3, 4]"] show ?thesis
    by (simp add: numeral_eq_Suc)
qed

text \<open>
  C10. When the label of record 0 recurs at a later record and the times of the first
  two base occurrences differ, every drift sequence the function returns is non-empty
  and starts with 0; and the function does return a sequence when the three arrays
  have the same length and the last record is taken at the base.
\<close>

theorem drift_first_entry_zero:
  assumes recurs: "0 < b" "b < length station" "station ! b = station ! 0"
    and differ: "time ! 0 \<noteq> time ! (where_eq station (station ! 0) ! 1)"
  shows "(\<forall>dc. drift_correction time g_read station = Inr dc \<longrightarrow> dc \<noteq> [] \<and> dc ! 0 = Num 0) \<and>
         (length time = length g_read \<and> length station = length g_read \<and>
          station ! (length station - 1) = station ! 0
            \<longrightarrow> (\<exists>dc. drift_correction time g_read station = Inr dc))"
proof (intro conjI allI impI)
  fix dc
  assume run: "drift_correction time g_read station = Inr dc"
  let ?idxs = "where_eq station (station ! 0)"
  from drift_correction_values[OF run refl]
  have ne: "dc \<noteq> []" and len: "1 < length ?idxs"
    and vals: "\<And>k p. k < length dc \<Longrightarrow> in_segment ?idxs p k \<Longrightarrow>
                 dc ! k = drift_value time g_read ?idxs dc p k"
    by blast+
  have "in_segment ?idxs 0 0"
    using len by (simp add: in_segment_def)
  with vals[of 0 0] ne have "dc ! 0 = drift_value time g_read ?idxs dc 0 0"
    by simp
  with differ show "dc ! 0 = Num 0"
    by (simp add: drift_value_def v_div_def)
  from ne show "dc \<noteq> []" .
next
  assume wf: "length time = length g_read \<and> length station = length g_read \<and>
          station ! (length station - 1) = station ! 0"
  then have tl: "length time = length g_read" and sl: "length station = length g_read"
    and lst: "station ! (length station - 1) = station ! 0"
    by blast+
  from recurs have two: "2 \<le> length station"
    by simp
  show "\<exists>dc. drift_correction time g_read station = Inr dc"
    by (rule drift_correction_returns[OF tl sl two lst])
qed

theorem drift_first_entry_zero_witness:
  "\<exists>dc. drift_correction [0, 1, 2, 4] [100, 101, 102, 108] [''B'', ''S1'', ''S2'', ''B''] = Inr dc \<and>
        dc \<noteq> [] \<and> dc ! 0 = Num 0"
proof -
  let ?time = "[0, 1, 2, 4 :: real]" and ?g = "[100, 101, 102, 108 :: real]"
    and ?st = "[''B'', ''S1'', ''S2'', ''B'']"
  have recurs: "0 < (3::nat)" "3 < length ?st" "?st ! 3 = ?st ! 0"
    by simp_all
  have differ: "?time ! 0 \<noteq> ?time ! (where_eq ?st (?st ! 0) ! 1)"
    by (simp add: where_eq_def upt_rec)
  have wf: "length ?time = length ?g \<and> length ?st = length ?g \<and>
            ?st ! (length ?st - 1) = ?st ! 0"
    by simp
  from drift_first_entry_zero[OF recurs differ, of ?g] wf show ?thesis
    by blast
qed

end
